theory Spec2Isabelle
  imports Main
begin

section \<open>Python strings\<close>

text \<open>
  A Python \<open>str\<close> is modelled as a \<^typ>\<open>string\<close>; a \<^typ>\<open>char\<close> stands for the code
  point of the same number, so the model covers the code points below 256.
  \<open>None\<close> is \<^const>\<open>None\<close> of an option type, and a raised exception is the left
  summand of a result.
\<close>

datatype error = IndexError

definition newline :: char where
  "newline = CHR 0x0A"

definition quote :: char where
  "quote = CHR 0x27"

text \<open>The characters for which \<open>str.isspace\<close> holds, among the code points below 256.\<close>

definition whitespace :: "char \<Rightarrow> bool" where
  "whitespace c = (c \<in> set [CHR 0x09, CHR 0x0A, CHR 0x0B, CHR 0x0C, CHR 0x0D,
                            CHR 0x1C, CHR 0x1D, CHR 0x1E, CHR 0x1F, CHR 0x20,
                            CHR 0x85, CHR 0xA0])"

text \<open>\<open>s.isspace()\<close>: at least one character, and all of them whitespace.\<close>

definition isspace :: "string \<Rightarrow> bool" where
  "isspace s = (s \<noteq> [] \<and> list_all whitespace s)"

text \<open>\<open>s.startswith(p)\<close>.\<close>

definition startswith :: "string \<Rightarrow> string \<Rightarrow> bool" where
  "startswith s p = (take (length p) s = p)"

text \<open>\<open>sub in s\<close> on strings: \<open>sub\<close> occurs in \<open>s\<close> as a substring.\<close>

fun py_in :: "string \<Rightarrow> string \<Rightarrow> bool" where
  "py_in sub [] = (sub = [])"
| "py_in sub (c # cs) = (startswith (c # cs) sub \<or> py_in sub cs)"

text \<open>
  \<open>s.replace(old, new)\<close>: every occurrence of \<open>old\<close>, found from the left and not
  overlapping, is replaced; an empty \<open>old\<close> matches before every character and at the end.
\<close>

function py_replace :: "string \<Rightarrow> string \<Rightarrow> string \<Rightarrow> string" where
  "py_replace old new [] = (if old = [] then new else [])"
| "py_replace old new (c # cs) =
     (if old = [] then new @ c # py_replace old new cs
      else if startswith (c # cs) old
           then new @ py_replace old new (drop (length old) (c # cs))
           else c # py_replace old new cs)"
  by pat_completeness auto
termination
  by (relation "measure (\<lambda>(old, new, s). length s)") auto

text \<open>\<open>s.split(sep)\<close> for a separator of one character; the result is never empty.\<close>

fun split_char :: "char \<Rightarrow> string \<Rightarrow> string list" where
  "split_char sep [] = [[]]"
| "split_char sep (c # cs) =
     (if c = sep then [] # split_char sep cs
      else (case split_char sep cs of
              [] \<Rightarrow> [[c]]
            | w # ws \<Rightarrow> (c # w) # ws))"

text \<open>
  \<open>s.split(maxsplit=1)\<close>: leading whitespace is skipped; the first word ends at the next
  whitespace; the rest, with its leading whitespace skipped and its trailing whitespace
  kept, is the second item when it is not empty.
\<close>

definition split_maxsplit1 :: "string \<Rightarrow> string list" where
  "split_maxsplit1 s =
     (let s1 = dropWhile whitespace s in
      if s1 = [] then []
      else
        (let word = takeWhile (\<lambda>c. \<not> whitespace c) s1;
             rest = dropWhile whitespace (dropWhile (\<lambda>c. \<not> whitespace c) s1)
         in if rest = [] then [word] else [word, rest]))"

text \<open>\<open>s.strip()\<close>.\<close>

definition strip :: "string \<Rightarrow> string" where
  "strip s = rev (dropWhile whitespace (rev (dropWhile whitespace s)))"

text \<open>The part of \<open>xs\<close> after the last occurrence of \<open>c\<close>.\<close>

definition after_last :: "char \<Rightarrow> string \<Rightarrow> string" where
  "after_last c xs = rev (takeWhile (\<lambda>d. d \<noteq> c) (rev xs))"

text \<open>
  \<open>re.sub(r"\[.*\]", "[]", s)\<close>. The dot matches every character but the newline and the
  star is greedy, so a match starts at a \<open>[\<close> that has a \<open>]\<close> after it before the next
  newline, and ends at the last such \<open>]\<close>; the search goes on after the match.
\<close>

function re_sub_brackets :: "string \<Rightarrow> string" where
  "re_sub_brackets [] = []"
| "re_sub_brackets (c # cs) =
     (if c = CHR ''['' \<and> CHR '']'' \<in> set (takeWhile (\<lambda>d. d \<noteq> newline) cs)
      then ''[]'' @ re_sub_brackets
             (after_last (CHR '']'') (takeWhile (\<lambda>d. d \<noteq> newline) cs)
              @ dropWhile (\<lambda>d. d \<noteq> newline) cs)
      else c # re_sub_brackets cs)"
  by pat_completeness auto
termination
proof (relation "measure length")
  show "wf (measure length)" by simp
next
  fix c :: char and cs :: string
  assume "c = CHR ''['' \<and> CHR '']'' \<in> set (takeWhile (\<lambda>d. d \<noteq> newline) cs)"
  have "length (after_last (CHR '']'') (takeWhile (\<lambda>d. d \<noteq> newline) cs))
          \<le> length (takeWhile (\<lambda>d. d \<noteq> newline) cs)"
    unfolding after_last_def
    using length_takeWhile_le [of "\<lambda>d. d \<noteq> CHR '']''" "rev (takeWhile (\<lambda>d. d \<noteq> newline) cs)"]
    by simp
  moreover have "length (takeWhile (\<lambda>d. d \<noteq> newline) cs) + length (dropWhile (\<lambda>d. d \<noteq> newline) cs)
                   = length cs"
    using takeWhile_dropWhile_id [of "\<lambda>d. d \<noteq> newline" cs] length_append
    by metis
  ultimately show "(after_last (CHR '']'') (takeWhile (\<lambda>d. d \<noteq> newline) cs)
                     @ dropWhile (\<lambda>d. d \<noteq> newline) cs, c # cs) \<in> measure length"
    by simp
next
  fix c :: char and cs :: string
  show "(cs, c # cs) \<in> measure length" by simp
qed

text \<open>\<open>xs[0]\<close>, which raises on the empty list.\<close>

definition item0 :: "'a list \<Rightarrow> error + 'a" where
  "item0 xs = (case xs of [] \<Rightarrow> Inl IndexError | x # _ \<Rightarrow> Inr x)"

section \<open>The line tokenizer\<close>

definition split_line :: "string \<Rightarrow> error + (string option \<times> string option)" where
  "split_line line0 =
     (let line = py_replace [newline] [] line0 in
      if startswith line ''#'' \<or> py_in ''='' line \<or> length line = 0 \<or> isspace line
      then Inr (None, None)
      else
        (case (if py_in ''#'' line then item0 (split_char (CHR ''#'') line) else Inr line) of
           Inl e \<Rightarrow> Inl e
         | Inr line1 \<Rightarrow>
             if isspace line1 then Inr (None, None)
             else
               (let split = split_maxsplit1 (re_sub_brackets line1) in
                case item0 split of
                  Inl e \<Rightarrow> Inl e
                | Inr s0 \<Rightarrow>
                    (let split = split[0 := py_replace ''/'' ''/msg/'' s0] in
                     if length split > 1
                     then Inr (Some (strip (split ! 0)), Some (strip (split ! 1)))
                     else Inr (Some (strip (split ! 0)), None)))))"

section \<open>The type resolver\<close>

definition primitive_types :: "string list" where
  "primitive_types =
     [''bool'', ''int8'', ''uint8'', ''int16'', ''uint16'', ''int32'', ''uint32'',
      ''int64'', ''uint64'', ''float32'', ''float64'', ''string'', ''byte'', ''time'',
      ''duration'', ''Header'',
      ''bool[]'', ''int8[]'', ''uint8[]'', ''int16[]'', ''uint16[]'', ''int32[]'',
      ''uint32[]'', ''int64[]'', ''uint64[]'', ''float32[]'', ''float64[]'', ''string[]'',
      ''byte[]'']"

text \<open>The result is the pair \<open>(variablename, typename)\<close>, in this order.\<close>

definition get_type_format :: "string \<Rightarrow> string \<Rightarrow> error + (string option \<times> string option)" where
  "get_type_format line package_name =
     (case split_line line of
        Inl e \<Rightarrow> Inl e
      | Inr (typename, variablename) \<Rightarrow>
          (case typename of
             None \<Rightarrow> Inr (variablename, None)
           | Some t \<Rightarrow>
               if t \<notin> set primitive_types
               then
                 (let t1 = (if \<not> py_in ''/'' t then package_name @ ''/msg/'' @ t else t);
                      t2 = [quote] @ t1 @ [quote]
                  in Inr (variablename, Some (py_replace ''[]'' [] t2 @ ''[]'')))
               else Inr (variablename, Some t)))"

section \<open>The entity builders\<close>

text \<open>
  A specification file is its stem and the lines that iterating over the open file
  yields, each with its line end. A \<open>dict\<close> is an association list in insertion order;
  its keys are optional strings, as the code uses whatever the resolver returns as the
  variable name.
\<close>

record spec_file =
  stem :: string
  file_lines :: "string list"

type_synonym field_dict = "(string option \<times> string) list"

text \<open>\<open>d[k] = v\<close>: a present key keeps its place and takes the new value.\<close>

fun dict_set :: "('k \<times> 'v) list \<Rightarrow> 'k \<Rightarrow> 'v \<Rightarrow> ('k \<times> 'v) list" where
  "dict_set [] k v = [(k, v)]"
| "dict_set ((k', v') # d) k v =
     (if k' = k then (k, v) # d else (k', v') # dict_set d k v)"

text \<open>\<open>for line in file: body\<close>, the body acting on the variables of the loop.\<close>

fun for_lines :: "('s \<Rightarrow> string \<Rightarrow> error + 's) \<Rightarrow> 's \<Rightarrow> string list \<Rightarrow> error + 's" where
  "for_lines body s [] = Inr s"
| "for_lines body s (line # rest) =
     (case body s line of Inl e \<Rightarrow> Inl e | Inr s' \<Rightarrow> for_lines body s' rest)"

definition msg_body :: "string \<Rightarrow> field_dict \<Rightarrow> string \<Rightarrow> error + field_dict" where
  "msg_body package_name message line0 =
     (if py_in ''='' line0 then Inr message
      else
        (let line = py_replace [newline] [] line0 in
         if length line = 0 then Inr message
         else
           (case get_type_format line package_name of
              Inl e \<Rightarrow> Inl e
            | Inr (variablename, typename) \<Rightarrow>
                (case typename of
                   None \<Rightarrow> Inr message
                 | Some t \<Rightarrow> Inr (dict_set message variablename t)))))"

definition process_msg_file :: "spec_file \<Rightarrow> string \<Rightarrow> error + (string \<times> field_dict)" where
  "process_msg_file msg_file package_name =
     (case for_lines (msg_body package_name) [] (file_lines msg_file) of
        Inl e \<Rightarrow> Inl e
      | Inr message \<Rightarrow> Inr (stem msg_file, message))"

text \<open>The loop variables of the service builder are \<open>(resp, request, response)\<close>.\<close>

definition srv_body ::
  "string \<Rightarrow> bool \<times> field_dict \<times> field_dict \<Rightarrow> string \<Rightarrow> error + (bool \<times> field_dict \<times> field_dict)"
where
  "srv_body package_name s line =
     (case s of (resp, request, response) \<Rightarrow>
        if py_in ''---'' line then Inr (True, request, response)
        else
          (case get_type_format line package_name of
             Inl e \<Rightarrow> Inl e
           | Inr (variablename, typename) \<Rightarrow>
               (case typename of
                  None \<Rightarrow> Inr (resp, request, response)
                | Some t \<Rightarrow>
                    if resp then Inr (resp, request, dict_set response variablename t)
                    else Inr (resp, dict_set request variablename t, response))))"

definition process_srv_file ::
  "spec_file \<Rightarrow> string \<Rightarrow> error + (string \<times> field_dict \<times> field_dict)"
where
  "process_srv_file srv_file package_name =
     (case for_lines (srv_body package_name) (False, [], []) (file_lines srv_file) of
        Inl e \<Rightarrow> Inl e
      | Inr (resp, request, response) \<Rightarrow> Inr (stem srv_file, request, response))"

text \<open>The loop variables of the action builder are \<open>(border, goal, result, feedback)\<close>.\<close>

definition action_body ::
  "string \<Rightarrow> nat \<times> field_dict \<times> field_dict \<times> field_dict \<Rightarrow> string
     \<Rightarrow> error + (nat \<times> field_dict \<times> field_dict \<times> field_dict)"
where
  "action_body package_name s line =
     (case s of (border, goal, result, feedback) \<Rightarrow>
        if py_in ''---'' line then Inr (border + 1, goal, result, feedback)
        else
          (case get_type_format line package_name of
             Inl e \<Rightarrow> Inl e
           | Inr (variablename, typename) \<Rightarrow>
               (case typename of
                  None \<Rightarrow> Inr (border, goal, result, feedback)
                | Some t \<Rightarrow>
                    (let goal = (if border = 0 then dict_set goal variablename t else goal);
                         result = (if border = 1 then dict_set result variablename t else result);
                         feedback = (if border = 2 then dict_set feedback variablename t
                                     else feedback)
                     in Inr (border, goal, result, feedback)))))"

definition process_action_file ::
  "spec_file \<Rightarrow> string \<Rightarrow> error + (string \<times> field_dict \<times> field_dict \<times> field_dict)"
where
  "process_action_file action_file package_name =
     (case for_lines (action_body package_name) (0, [], [], []) (file_lines action_file) of
        Inl e \<Rightarrow> Inl e
      | Inr (border, goal, result, feedback) \<Rightarrow> Inr (stem action_file, goal, result, feedback))"

section \<open>Topic names\<close>

record TopicInfo =
  name :: string
  types :: "string list"

text \<open>
  The loop of \<open>fix_topic_names\<close>; its variables are \<open>node_name\<close>, which the body
  reassigns, and \<open>new_topics\<close>.
\<close>

fun fix_topic_names_loop :: "string \<Rightarrow> TopicInfo list \<Rightarrow> TopicInfo list \<Rightarrow> TopicInfo list" where
  "fix_topic_names_loop node_name new_topics [] = new_topics"
| "fix_topic_names_loop node_name new_topics (topic # topics) =
     (let node_name' = (if \<not> startswith node_name ''/'' then ''/node_name'' else node_name)
      in fix_topic_names_loop node_name'
           (new_topics @ [\<lparr>name = py_replace node_name' ''~'' (name topic), types = types topic\<rparr>])
           topics)"

definition fix_topic_names :: "string \<Rightarrow> TopicInfo list \<Rightarrow> TopicInfo list" where
  "fix_topic_names node_name topics = fix_topic_names_loop node_name [] topics"

section \<open>Notions used in the statements\<close>

text \<open>
  A token of a field line: not empty, and free of whitespace, of the comment sign, of the
  equals sign and of brackets.
\<close>

definition token :: "string \<Rightarrow> bool" where
  "token s = (s \<noteq> [] \<and> list_all (\<lambda>c. \<not> whitespace c \<and> c \<notin> set ''#=[]'') s)"

text \<open>
  A line passes the two early returns of \<open>split_line\<close>: it is no comment, no constant
  declaration, not empty and not blank, also once its inline comment is cut off.
\<close>

definition significant :: "string \<Rightarrow> bool" where
  "significant line0 =
     (let line = py_replace [newline] [] line0 in
      \<not> (startswith line ''#'' \<or> py_in ''='' line \<or> length line = 0 \<or> isspace line)
      \<and> \<not> isspace (takeWhile (\<lambda>c. c \<noteq> CHR ''#'') line))"

text \<open>The list \<open>split\<close> that \<open>split_line\<close> computes for a significant line.\<close>

definition tokens :: "string \<Rightarrow> string list" where
  "tokens line0 =
     split_maxsplit1
       (re_sub_brackets (takeWhile (\<lambda>c. c \<noteq> CHR ''#'') (py_replace [newline] [] line0)))"

text \<open>What a line read as a field line stores: the variable name and the resolved type.\<close>

definition field_entry :: "string \<Rightarrow> string \<Rightarrow> (string option \<times> string) option" where
  "field_entry package_name line =
     (case get_type_format line package_name of
        Inl e \<Rightarrow> None
      | Inr (variablename, typename) \<Rightarrow>
          (case typename of None \<Rightarrow> None | Some t \<Rightarrow> Some (variablename, t)))"

definition entries :: "string \<Rightarrow> string list \<Rightarrow> (string option \<times> string) list" where
  "entries package_name lines = List.map_filter (field_entry package_name) lines"

text \<open>Storing a list of entries, in order, in a \<open>dict\<close>.\<close>

definition store_all :: "('k \<times> 'v) list \<Rightarrow> ('k \<times> 'v) list \<Rightarrow> ('k \<times> 'v) list" where
  "store_all d es = foldl (\<lambda>d' (k, v). dict_set d' k v) d es"

text \<open>
  The lines of section \<open>k\<close> of a file, the sections being separated by the lines in
  which \<open>---\<close> occurs.
\<close>

fun section_lines :: "nat \<Rightarrow> string list \<Rightarrow> string list" where
  "section_lines k [] = []"
| "section_lines k (line # rest) =
     (if py_in ''---'' line
      then (case k of 0 \<Rightarrow> [] | Suc j \<Rightarrow> section_lines j rest)
      else if k = 0 then line # section_lines 0 rest
      else section_lines k rest)"

text \<open>
  The lines of section \<open>k\<close> of the whole file among the lines \<open>ls\<close> still to be read,
  when \<open>border\<close> separators have been read before them.
\<close>

definition section_from :: "nat \<Rightarrow> nat \<Rightarrow> string list \<Rightarrow> string list" where
  "section_from border k ls = (if border \<le> k then section_lines (k - border) ls else [])"

text \<open>
  The lines of the request of a service file, those before the first line in which \<open>---\<close>
  occurs, and the lines of its response, those after it in which \<open>---\<close> does not occur.
\<close>

definition request_lines :: "string list \<Rightarrow> string list" where
  "request_lines ls = takeWhile (\<lambda>l. \<not> py_in ''---'' l) ls"

definition response_lines :: "string list \<Rightarrow> string list" where
  "response_lines ls = filter (\<lambda>l. \<not> py_in ''---'' l) (dropWhile (\<lambda>l. \<not> py_in ''---'' l) ls)"

text \<open>
  The dict \<open>d\<close> holds the entries \<open>es\<close> with the last write winning: it has one entry for
  each name, and the type it gives a name is the one of the last entry of \<open>es\<close> with this
  name.
\<close>

definition last_write_wins :: "('k \<times> 'v) list \<Rightarrow> ('k \<times> 'v) list \<Rightarrow> bool" where
  "last_write_wins es d = (distinct (map fst d) \<and> map_of d = map_of (rev es))"

text \<open>
  In the words of the specification: a line consisting of a separator marker, three or
  more dash characters and nothing else but the whitespace around them.
\<close>

definition separator_marker_line :: "string \<Rightarrow> bool" where
  "separator_marker_line line = (3 \<le> length (strip line) \<and> list_all (\<lambda>c. c = CHR ''-'') (strip line))"

section \<open>String operations\<close>

lemma startswith_single [simp]: "startswith (c # cs) [d] = (d = c)"
  by (auto simp add: startswith_def)

lemma newline_neq_bracket [simp]:
  "CHR '']'' \<noteq> newline" "CHR ''['' \<noteq> newline" "newline \<noteq> CHR '']''" "newline \<noteq> CHR ''[''"
  by (simp_all add: newline_def)

lemma py_replace_single:
  "py_replace [c] new s = concat (map (\<lambda>d. if d = c then new else [d]) s)"
proof (induction s)
  case Nil
  show ?case by simp
next
  case (Cons a s)
  show ?case
  proof (cases "a = c")
    case True
    with Cons show ?thesis by simp
  next
    case False
    then have "c \<noteq> a" by simp
    with Cons show ?thesis by simp
  qed
qed

lemma py_replace_single_absent: "c \<notin> set s \<Longrightarrow> py_replace [c] new s = s"
  by (induction s) (simp_all add: py_replace_single)

lemma py_replace_single_nonspace:
  "list_all (\<lambda>c. \<not> whitespace c) new \<Longrightarrow> list_all (\<lambda>c. \<not> whitespace c) s \<Longrightarrow>
     list_all (\<lambda>c. \<not> whitespace c) (py_replace [c] new s)"
  by (auto simp: py_replace_single list_all_iff)

lemma py_replace_newline: "py_replace [newline] [] s = filter (\<lambda>c. c \<noteq> newline) s"
  by (induction s) (simp_all add: py_replace_single)

lemma py_in_single: "py_in [c] s = (c \<in> set s)"
  by (induction s) auto

lemma item0_split_char: "item0 (split_char c s) = Inr (takeWhile (\<lambda>d. d \<noteq> c) s)"
  by (induction s) (simp_all add: item0_def split: list.splits)

lemma dropWhile_Nil_list_all: "(dropWhile P xs = []) = list_all P xs"
  by (induction xs) simp_all

lemma dropWhile_all: "list_all P xs \<Longrightarrow> dropWhile P xs = []"
  by (simp add: list_all_iff)

lemma dropWhile_none: "list_all (\<lambda>x. \<not> P x) xs \<Longrightarrow> dropWhile P xs = xs"
  by (cases xs) simp_all

lemma takeWhile_none: "list_all (\<lambda>x. \<not> P x) xs \<Longrightarrow> takeWhile P xs = []"
  by (cases xs) simp_all

lemma strip_nonspace: "list_all (\<lambda>c. \<not> whitespace c) s \<Longrightarrow> strip s = s"
  by (simp add: strip_def dropWhile_none)

lemma split_maxsplit1_empty: "(split_maxsplit1 s = []) = list_all whitespace s"
  by (simp add: split_maxsplit1_def Let_def dropWhile_Nil_list_all del: dropWhile_eq_Nil_conv)

lemma split_maxsplit1_two:
  assumes "list_all (\<lambda>c. \<not> whitespace c) w" and "w \<noteq> []"
    and "whitespace c" and "dropWhile whitespace r \<noteq> []"
  shows "split_maxsplit1 (w @ c # r) = [w, dropWhile whitespace r]"
proof -
  from assms(1,2) have 1: "dropWhile whitespace (w @ c # r) = w @ c # r"
    by (cases w) simp_all
  from assms(1,3) have 2: "takeWhile (\<lambda>c. \<not> whitespace c) (w @ c # r) = w"
    by (induction w) simp_all
  from assms(1,3) have 3: "dropWhile (\<lambda>c. \<not> whitespace c) (w @ c # r) = c # r"
    by (induction w) simp_all
  show ?thesis
    using assms(2,3,4) by (simp add: split_maxsplit1_def Let_def 1 2 3)
qed

lemma split_maxsplit1_one:
  assumes "list_all (\<lambda>c. \<not> whitespace c) w" and "w \<noteq> []" and "list_all whitespace r"
  shows "split_maxsplit1 (w @ r) = [w]"
proof -
  from assms(1,2) have 1: "dropWhile whitespace (w @ r) = w @ r"
    by (cases w) simp_all
  from assms(3) have r: "list_all (\<lambda>c. \<not> \<not> whitespace c) r" by simp
  from assms(1) have 2: "takeWhile (\<lambda>c. \<not> whitespace c) (w @ r) = w"
    using takeWhile_none [OF r] by (simp add: takeWhile_append2 list_all_iff)
  from assms(1) have 3: "dropWhile (\<lambda>c. \<not> whitespace c) (w @ r) = r"
    using dropWhile_none [OF r] by (simp add: dropWhile_append2 list_all_iff)
  show ?thesis
    using assms(2,3) by (simp add: split_maxsplit1_def Let_def 1 2 3 dropWhile_all)
qed

lemma list_all_takeWhile: "list_all P (takeWhile P xs)"
  by (induction xs) simp_all

lemma split_maxsplit1_first_word:
  assumes "split_maxsplit1 s = w # r"
  shows "list_all (\<lambda>c. \<not> whitespace c) w"
proof -
  let ?s1 = "dropWhile whitespace s"
  let ?w = "takeWhile (\<lambda>c. \<not> whitespace c) ?s1"
  let ?rest = "dropWhile whitespace (dropWhile (\<lambda>c. \<not> whitespace c) ?s1)"
  have "w = ?w"
  proof (cases "?s1 = []")
    case True
    then have "split_maxsplit1 s = []"
      unfolding split_maxsplit1_def Let_def by (simp only: if_True refl)
    with assms show ?thesis by simp
  next
    case False
    note s1 = this
    show ?thesis
    proof (cases "?rest = []")
      case True
      with s1 have "split_maxsplit1 s = [?w]"
        unfolding split_maxsplit1_def Let_def by (simp only: if_True if_False refl)
      with assms show ?thesis by simp
    next
      case False
      with s1 have "split_maxsplit1 s = [?w, ?rest]"
        unfolding split_maxsplit1_def Let_def by (simp only: if_False)
      with assms show ?thesis by simp
    qed
  qed
  then show ?thesis by (simp only: list_all_takeWhile)
qed

subsection \<open>The bracket pattern\<close>

lemma after_last_append: "c \<notin> set b \<Longrightarrow> after_last c (a @ c # b) = b"
proof -
  assume "c \<notin> set b"
  then have "takeWhile (\<lambda>d. d \<noteq> c) (rev b @ c # rev a) = rev b"
    by (induction b rule: rev_induct) auto
  then show ?thesis by (simp add: after_last_def)
qed

lemma re_sub_brackets_no_close: "CHR '']'' \<notin> set s \<Longrightarrow> re_sub_brackets s = s"
proof (induction s)
  case Nil
  then show ?case by simp
next
  case (Cons c cs)
  then have "CHR '']'' \<notin> set (takeWhile (\<lambda>d. d \<noteq> newline) cs)"
    using set_takeWhileD by fastforce
  with Cons show ?case by simp
qed

text \<open>One match covers everything from the first \<open>[\<close> to the last \<open>]\<close> of a line.\<close>

lemma re_sub_brackets_greedy:
  assumes "CHR ''['' \<notin> set a" and "newline \<notin> set m" and "CHR '']'' \<notin> set b"
  shows "re_sub_brackets (a @ CHR ''['' # m @ CHR '']'' # b) = a @ ''[]'' @ b"
  using assms(1)
proof (induction a)
  case Nil
  have seg: "takeWhile (\<lambda>d. d \<noteq> newline) (m @ CHR '']'' # b)
               = m @ CHR '']'' # takeWhile (\<lambda>d. d \<noteq> newline) b"
    using assms(2) by (induction m) auto
  have rest: "dropWhile (\<lambda>d. d \<noteq> newline) (m @ CHR '']'' # b)
               = dropWhile (\<lambda>d. d \<noteq> newline) b"
    using assms(2) by (induction m) auto
  have "CHR '']'' \<notin> set (takeWhile (\<lambda>d. d \<noteq> newline) b)"
    using assms(3) set_takeWhileD by fastforce
  then have "after_last (CHR '']'') (m @ CHR '']'' # takeWhile (\<lambda>d. d \<noteq> newline) b)
               = takeWhile (\<lambda>d. d \<noteq> newline) b"
    by (rule after_last_append)
  then show ?case
    using assms(3) by (simp add: seg rest re_sub_brackets_no_close)
next
  case (Cons c a)
  then have "c \<noteq> CHR ''[''" by auto
  with Cons show ?case by simp
qed

lemma re_sub_brackets_keeps_nonspace:
  "\<not> list_all whitespace s \<Longrightarrow> \<not> list_all whitespace (re_sub_brackets s)"
proof (induction s rule: re_sub_brackets.induct)
  case 1
  then show ?case by simp
next
  case (2 c cs)
  show ?case
  proof (cases "c = CHR ''['' \<and> CHR '']'' \<in> set (takeWhile (\<lambda>d. d \<noteq> newline) cs)")
    case True
    then show ?thesis by (simp add: whitespace_def)
  next
    case False
    with 2 show ?thesis by auto
  qed
qed

subsection \<open>The tokenizer by cases\<close>

lemma comment_cut:
  "(if py_in ''#'' l then item0 (split_char (CHR ''#'') l) else Inr l)
     = Inr (takeWhile (\<lambda>c. c \<noteq> CHR ''#'') l)"
proof (cases "CHR ''#'' \<in> set l")
  case True
  then show ?thesis by (simp add: py_in_single item0_split_char)
next
  case False
  then have "takeWhile (\<lambda>c. c \<noteq> CHR ''#'') l = l"
    by (induction l) auto
  then show ?thesis using False by (simp only: py_in_single if_False)
qed

lemma split_maxsplit1_length: "length (split_maxsplit1 s) \<le> 2"
  unfolding split_maxsplit1_def Let_def by (simp del: dropWhile_eq_Nil_conv)

lemma tokens_length: "length (tokens line) \<le> 2"
  by (simp add: tokens_def split_maxsplit1_length)

lemma split_line_not_significant:
  assumes "\<not> significant line"
  shows "split_line line = Inr (None, None)"
proof (cases "startswith (py_replace [newline] [] line) ''#'' \<or> py_in ''='' (py_replace [newline] [] line)
                \<or> length (py_replace [newline] [] line) = 0 \<or> isspace (py_replace [newline] [] line)")
  case True
  then show ?thesis
    unfolding split_line_def Let_def by (simp only: if_True)
next
  case False
  with assms have "isspace (takeWhile (\<lambda>c. c \<noteq> CHR ''#'') (py_replace [newline] [] line))"
    unfolding significant_def Let_def by blast
  with False show ?thesis
    unfolding split_line_def Let_def comment_cut by (simp only: if_False if_True sum.case)
qed

lemma significant_tokens:
  assumes "significant line" 
  shows "tokens line \<noteq> []"
proof -
  let ?l = "py_replace [newline] [] line"
  let ?l1 = "takeWhile (\<lambda>c. c \<noteq> CHR ''#'') ?l"
  from assms have "?l \<noteq> []" and "\<not> startswith ?l ''#''" and ns: "\<not> isspace ?l1"
    by (simp_all add: significant_def Let_def)
  then have "?l1 \<noteq> []"
    by (cases ?l) (simp_all)
  with ns have "\<not> list_all whitespace ?l1"
    by (simp add: isspace_def)
  then have "\<not> list_all whitespace (re_sub_brackets ?l1)"
    by (rule re_sub_brackets_keeps_nonspace)
  then show ?thesis
    by (simp add: tokens_def split_maxsplit1_empty)
qed

lemma split_line_significant:
  assumes "significant line"
  shows "split_line line =
           (case tokens line of
              [] \<Rightarrow> Inl IndexError
            | [w] \<Rightarrow> Inr (Some (strip (py_replace ''/'' ''/msg/'' w)), None)
            | w # r # _ \<Rightarrow> Inr (Some (strip (py_replace ''/'' ''/msg/'' w)), Some (strip r)))"
proof -
  let ?l = "py_replace [newline] [] line"
  from assms
  have c: "\<not> (startswith ?l ''#'' \<or> py_in ''='' ?l \<or> length ?l = 0 \<or> isspace ?l)"
    and ns: "\<not> isspace (takeWhile (\<lambda>c. c \<noteq> CHR ''#'') ?l)"
    unfolding significant_def Let_def by blast+
  have eq: "split_line line =
         (case item0 (tokens line) of
            Inl e \<Rightarrow> Inl e
          | Inr s0 \<Rightarrow>
              (let split = (tokens line)[0 := py_replace ''/'' ''/msg/'' s0] in
               if length split > 1
               then Inr (Some (strip (split ! 0)), Some (strip (split ! 1)))
               else Inr (Some (strip (split ! 0)), None)))"
    unfolding split_line_def tokens_def Let_def comment_cut
    using c ns by (simp only: if_False sum.case)
  show ?thesis
  proof (cases "tokens line")
    case Nil
    then show ?thesis by (simp add: eq item0_def)
  next
    case (Cons w rest)
    then show ?thesis by (cases rest) (simp_all add: eq item0_def)
  qed
qed

lemma split_line_total: "\<exists>r. split_line line = Inr r"
proof (cases "significant line")
  case False
  then show ?thesis by (simp add: split_line_not_significant)
next
  case True
  then show ?thesis
    using significant_tokens [OF True]
    by (simp add: split_line_significant split: list.splits)
qed

lemma get_type_format_total: "\<exists>v t. get_type_format line pkg = Inr (v, t)"
proof -
  obtain ty v where "split_line line = Inr (ty, v)"
    using split_line_total [of line] by fastforce
  then show ?thesis
    by (cases ty) (simp_all add: get_type_format_def Let_def)
qed

subsection \<open>Lines of two tokens\<close>

lemma token_props:
  assumes "token s"
  shows "s \<noteq> []" and "list_all (\<lambda>c. \<not> whitespace c) s"
    and "CHR ''#'' \<notin> set s" and "CHR ''='' \<notin> set s"
    and "CHR ''['' \<notin> set s" and "CHR '']'' \<notin> set s" and "newline \<notin> set s"
proof -
  from assms show "s \<noteq> []" by (simp add: token_def)
  from assms have a: "\<forall>c\<in>set s. \<not> whitespace c \<and> c \<notin> set ''#=[]''"
    by (simp add: token_def list_all_iff)
  then show "list_all (\<lambda>c. \<not> whitespace c) s" by (simp add: list_all_iff)
  from a show "CHR ''#'' \<notin> set s" "CHR ''='' \<notin> set s" "CHR ''['' \<notin> set s" "CHR '']'' \<notin> set s"
    by auto
  have "whitespace newline" by (simp add: whitespace_def newline_def)
  with a show "newline \<notin> set s" by auto
qed

lemma significant_plain:
  assumes "newline \<notin> set line" and "CHR ''#'' \<notin> set line" and "CHR ''='' \<notin> set line"
    and "\<not> list_all whitespace line"
  shows "significant line" and "tokens line = split_maxsplit1 (re_sub_brackets line)"
proof -
  from assms(1) have l: "py_replace [newline] [] line = line"
    by (simp add: py_replace_single_absent)
  from assms(2) have c: "takeWhile (\<lambda>c. c \<noteq> CHR ''#'') line = line"
    by (induction line) auto
  from assms(4) have ne: "line \<noteq> []" by auto
  with assms(2) have "\<not> startswith line ''#''"
    by (cases line) auto
  with assms(3,4) ne show "significant line"
    unfolding significant_def Let_def l c by (simp add: py_in_single isspace_def)
  show "tokens line = split_maxsplit1 (re_sub_brackets line)"
    unfolding tokens_def l c ..
qed

lemma split_line_two_tokens:
  assumes "token T" and "token N"
  shows "split_line (T @ '' '' @ N) = Inr (Some (py_replace ''/'' ''/msg/'' T), Some N)"
proof -
  note t = token_props [OF assms(1)] and n = token_props [OF assms(2)]
  let ?line = "T @ '' '' @ N"
  have ws: "whitespace (CHR '' '')" by (simp add: whitespace_def)
  have nonsp: "\<not> list_all whitespace ?line"
    using t(1,2) by (cases T) simp_all
  have sig: "significant ?line" and tok: "tokens ?line = split_maxsplit1 (re_sub_brackets ?line)"
    using t n nonsp by (simp_all add: significant_plain newline_def)
  have "re_sub_brackets ?line = ?line"
    using t(6) n(6) by (simp add: re_sub_brackets_no_close)
  moreover have "split_maxsplit1 (T @ CHR '' '' # N) = [T, dropWhile whitespace N]"
    using t(1,2) n(1,2) ws by (intro split_maxsplit1_two) (simp_all add: dropWhile_none)
  ultimately have "tokens ?line = [T, N]"
    using tok n(2) by (simp add: dropWhile_none)
  moreover have "strip (py_replace ''/'' ''/msg/'' T) = py_replace ''/'' ''/msg/'' T"
    using t(2) by (intro strip_nonspace py_replace_single_nonspace) (simp_all add: whitespace_def)
  ultimately show ?thesis
    using n(2) split_line_significant [OF sig] by (simp add: strip_nonspace)
qed

lemma split_line_array:
  assumes "token T" and "token N"
    and "newline \<notin> set ann" and "CHR ''#'' \<notin> set ann" and "CHR ''='' \<notin> set ann"
  shows "split_line (T @ ''['' @ ann @ ''] '' @ N)
           = Inr (Some (py_replace ''/'' ''/msg/'' T @ ''[]''), Some N)"
proof -
  note t = token_props [OF assms(1)] and n = token_props [OF assms(2)]
  let ?line = "T @ ''['' @ ann @ ''] '' @ N"
  have ws: "whitespace (CHR '' '')" by (simp add: whitespace_def)
  have nonsp: "\<not> list_all whitespace ?line"
    using t(1,2) by (cases T) simp_all
  have sig: "significant ?line" and tok: "tokens ?line = split_maxsplit1 (re_sub_brackets ?line)"
    using t n nonsp assms(3-5) by (simp_all add: significant_plain newline_def)
  have "re_sub_brackets (T @ CHR ''['' # ann @ CHR '']'' # CHR '' '' # N) = T @ ''[]'' @ CHR '' '' # N"
    using t(5) n(6) assms(3) by (intro re_sub_brackets_greedy) simp_all
  moreover have "split_maxsplit1 ((T @ ''[]'') @ CHR '' '' # N) = [T @ ''[]'', dropWhile whitespace N]"
    using t(1,2) n(1,2) ws by (intro split_maxsplit1_two) (simp_all add: dropWhile_none whitespace_def)
  ultimately have "tokens ?line = [T @ ''[]'', N]"
    using tok n(2) by (simp add: dropWhile_none)
  moreover have "list_all (\<lambda>c. \<not> whitespace c) (py_replace ''/'' ''/msg/'' (T @ ''[]''))"
    using t(2) by (intro py_replace_single_nonspace) (simp_all add: whitespace_def)
  moreover have "py_replace ''/'' ''/msg/'' (T @ ''[]'') = py_replace ''/'' ''/msg/'' T @ ''[]''"
    by (simp add: py_replace_single)
  ultimately show ?thesis
    using n(2) split_line_significant [OF sig] by (simp add: strip_nonspace)
qed

lemma split_line_merge:
  assumes "token T"
    and "newline \<notin> set mid" and "CHR ''#'' \<notin> set mid" and "CHR ''='' \<notin> set mid"
  shows "split_line (T @ ''['' @ mid @ '']'')
           = Inr (Some (py_replace ''/'' ''/msg/'' T @ ''[]''), None)"
proof -
  note t = token_props [OF assms(1)]
  let ?line = "T @ ''['' @ mid @ '']''"
  have nonsp: "\<not> list_all whitespace ?line"
    using t(1,2) by (cases T) simp_all
  have sig: "significant ?line" and tok: "tokens ?line = split_maxsplit1 (re_sub_brackets ?line)"
    using t nonsp assms(2-4) by (simp_all add: significant_plain newline_def)
  have "re_sub_brackets (T @ CHR ''['' # mid @ CHR '']'' # []) = T @ ''[]'' @ []"
    using t(5) assms(2) by (intro re_sub_brackets_greedy) simp_all
  moreover have "split_maxsplit1 ((T @ ''[]'') @ []) = [T @ ''[]'']"
    using t(1,2) by (intro split_maxsplit1_one) (simp_all add: whitespace_def)
  ultimately have "tokens ?line = [T @ ''[]'']"
    using tok by simp
  moreover have "list_all (\<lambda>c. \<not> whitespace c) (py_replace ''/'' ''/msg/'' (T @ ''[]''))"
    using t(2) by (intro py_replace_single_nonspace) (simp_all add: whitespace_def)
  moreover have "py_replace ''/'' ''/msg/'' (T @ ''[]'') = py_replace ''/'' ''/msg/'' T @ ''[]''"
    by (simp add: py_replace_single)
  ultimately show ?thesis
    using split_line_significant [OF sig] by (simp add: strip_nonspace)
qed

subsection \<open>Replacing, constants and line ends\<close>

lemma startswith_brackets: "startswith (c # s) ''[]'' \<Longrightarrow> c = CHR ''[''"
  by (cases s) (simp_all add: startswith_def)

lemma py_replace_brackets_prefix:
  "CHR ''['' \<notin> set a \<Longrightarrow> py_replace ''[]'' new (a @ b) = a @ py_replace ''[]'' new b"
proof (induction a)
  case Nil
  show ?case by simp
next
  case (Cons c a)
  then have "\<not> startswith (c # a @ b) ''[]''"
    using startswith_brackets [of c "a @ b"] by auto
  with Cons show ?case by simp
qed

lemma primitive_shape:
  assumes "P \<in> set primitive_types"
  shows "(token P \<and> CHR ''/'' \<notin> set P)
         \<or> (token (butlast (butlast P)) \<and> CHR ''/'' \<notin> set (butlast (butlast P))
            \<and> P = butlast (butlast P) @ ''[]'')"
  using assms unfolding primitive_types_def
  by (simp, elim disjE) (simp_all add: token_def whitespace_def)

lemma equals_after_newlines:
  "py_in ''='' (py_replace [newline] [] line) = (CHR ''='' \<in> set line)"
  unfolding py_in_single py_replace_newline by (auto simp: newline_def)

lemma split_line_equals: "CHR ''='' \<in> set line \<Longrightarrow> split_line line = Inr (None, None)"
  by (rule split_line_not_significant) (simp add: significant_def Let_def equals_after_newlines)

lemma split_line_ignores_newlines: "split_line (py_replace [newline] [] line) = split_line line"
  by (simp add: split_line_def py_replace_newline)

lemma get_type_format_ignores_newlines:
  "get_type_format (py_replace [newline] [] line) pkg = get_type_format line pkg"
  by (simp add: get_type_format_def split_line_ignores_newlines)

lemma get_type_format_equals: "CHR ''='' \<in> set line \<Longrightarrow> get_type_format line pkg = Inr (None, None)"
  by (simp add: get_type_format_def split_line_equals)

lemma quote_neq_bracket [simp]: "quote \<noteq> CHR ''[''" "CHR ''['' \<noteq> quote"
  by (simp_all add: quote_def)

lemma primitive_cases:
  assumes "P \<in> set primitive_types"
  obtains "token P" and "CHR ''/'' \<notin> set P"
  | b where "token b" and "CHR ''/'' \<notin> set b" and "P = b @ ''[]''"
  using primitive_shape [OF assms] by blast

section \<open>Dicts and the loops of the builders\<close>

lemma dict_set_keys:
  "map fst (dict_set d k v) = (if k \<in> set (map fst d) then map fst d else map fst d @ [k])"
proof (induction d)
  case Nil
  show ?case by simp
next
  case (Cons a d)
  obtain k' v' where a: "a = (k', v')" by (cases a)
  show ?case
  proof (cases "k' = k")
    case True
    then show ?thesis by (simp add: a)
  next
    case False
    with Cons show ?thesis by (simp add: a)
  qed
qed

lemma dict_set_distinct: "distinct (map fst d) \<Longrightarrow> distinct (map fst (dict_set d k v))"
  by (simp add: dict_set_keys)

lemma dict_set_map_of: "map_of (dict_set d k v) = (map_of d)(k \<mapsto> v)"
  by (induction d) auto

lemma store_all_Cons: "store_all d ((k, v) # es) = store_all (dict_set d k v) es"
  by (simp add: store_all_def)

lemma store_all_Nil: "store_all d [] = d"
  by (simp add: store_all_def)

lemma store_all_distinct: "distinct (map fst d) \<Longrightarrow> distinct (map fst (store_all d es))"
proof (induction es arbitrary: d)
  case Nil
  then show ?case by (simp add: store_all_Nil)
next
  case (Cons e es)
  obtain k v where e: "e = (k, v)" by (cases e)
  from Cons.prems have "distinct (map fst (dict_set d k v))" by (rule dict_set_distinct)
  then show ?case unfolding e store_all_Cons by (rule Cons.IH)
qed

lemma store_all_map_of: "map_of (store_all d es) = map_of d ++ map_of (rev es)"
proof (induction es arbitrary: d)
  case Nil
  show ?case by (simp add: store_all_Nil)
next
  case (Cons e es)
  obtain k v where e: "e = (k, v)" by (cases e)
  have "map_of (store_all (dict_set d k v) es) = map_of (dict_set d k v) ++ map_of (rev es)"
    by (rule Cons.IH)
  also have "\<dots> = map_of d ++ map_of (rev es @ [(k, v)])"
    by (rule ext) (simp add: dict_set_map_of map_add_def split: option.splits)
  finally show ?case unfolding e store_all_Cons by simp
qed

lemma entries_Nil: "entries pkg [] = []"
  by (simp add: entries_def map_filter_simps)

lemma entries_Cons:
  "entries pkg (line # rest) =
     (case field_entry pkg line of None \<Rightarrow> entries pkg rest | Some e \<Rightarrow> e # entries pkg rest)"
  by (cases "field_entry pkg line") (simp_all add: entries_def map_filter_simps)

lemma field_entry_Some:
  "get_type_format line pkg = Inr (v, Some t) \<Longrightarrow> field_entry pkg line = Some (v, t)"
  by (simp add: field_entry_def)

text \<open>One pass of each loop body, in terms of the entry of the line.\<close>

lemma empty_line_not_significant: "py_replace [newline] [] line = [] \<Longrightarrow> \<not> significant line"
  by (simp add: significant_def)

lemma msg_body_entry:
  "msg_body pkg message line =
     Inr (case field_entry pkg line of None \<Rightarrow> message | Some (k, v) \<Rightarrow> dict_set message k v)"
proof (cases "CHR ''='' \<in> set line")
  case True
  then show ?thesis
    by (simp add: msg_body_def py_in_single field_entry_def get_type_format_equals)
next
  case False
  note noeq = this
  show ?thesis
  proof (cases "py_replace [newline] [] line = []")
    case True
    then have "split_line line = Inr (None, None)"
      by (intro split_line_not_significant empty_line_not_significant)
    then have "get_type_format line pkg = Inr (None, None)"
      by (simp add: get_type_format_def)
    with True noeq show ?thesis
      by (simp add: msg_body_def py_in_single field_entry_def)
  next
    case False
    obtain v t where g: "get_type_format line pkg = Inr (v, t)"
      using get_type_format_total by blast
    with False noeq show ?thesis
      by (cases t)
         (simp_all add: msg_body_def py_in_single field_entry_def get_type_format_ignores_newlines)
  qed
qed

lemma srv_body_entry:
  "srv_body pkg (resp, request, response) line =
     (if py_in ''---'' line then Inr (True, request, response)
      else (case field_entry pkg line of
              None \<Rightarrow> Inr (resp, request, response)
            | Some (k, v) \<Rightarrow>
                if resp then Inr (resp, request, dict_set response k v)
                else Inr (resp, dict_set request k v, response)))"
proof -
  obtain v t where g: "get_type_format line pkg = Inr (v, t)"
    using get_type_format_total by blast
  then show ?thesis
    by (cases t) (simp_all add: srv_body_def field_entry_def)
qed

lemma action_body_entry:
  "action_body pkg (border, goal, result, feedback) line =
     (if py_in ''---'' line then Inr (border + 1, goal, result, feedback)
      else (case field_entry pkg line of
              None \<Rightarrow> Inr (border, goal, result, feedback)
            | Some (k, v) \<Rightarrow>
                Inr (border,
                     if border = 0 then dict_set goal k v else goal,
                     if border = 1 then dict_set result k v else result,
                     if border = 2 then dict_set feedback k v else feedback)))"
proof -
  obtain v t where g: "get_type_format line pkg = Inr (v, t)"
    using get_type_format_total by blast
  then show ?thesis
    by (cases t) (simp_all add: action_body_def field_entry_def Let_def)
qed

lemma msg_loop: "for_lines (msg_body pkg) message ls = Inr (store_all message (entries pkg ls))"
proof (induction ls arbitrary: message)
  case Nil
  show ?case by (simp add: entries_Nil store_all_Nil)
next
  case (Cons line rest)
  show ?case
  proof (cases "field_entry pkg line")
    case None
    then have "msg_body pkg message line = Inr message"
      by (simp add: msg_body_entry)
    then have "for_lines (msg_body pkg) message (line # rest) = for_lines (msg_body pkg) message rest"
      by simp
    with None show ?thesis by (simp add: entries_Cons Cons.IH)
  next
    case (Some e)
    obtain k v where e: "e = (k, v)" by (cases e)
    with Some have "msg_body pkg message line = Inr (dict_set message k v)"
      by (simp add: msg_body_entry)
    then have "for_lines (msg_body pkg) message (line # rest)
                 = for_lines (msg_body pkg) (dict_set message k v) rest"
      by simp
    with Some e show ?thesis by (simp add: entries_Cons Cons.IH store_all_Cons)
  qed
qed

lemma srv_loop_response:
  "for_lines (srv_body pkg) (True, request, response) ls
     = Inr (True, request,
            store_all response (entries pkg (filter (\<lambda>l. \<not> py_in ''---'' l) ls)))"
proof (induction ls arbitrary: response)
  case Nil
  show ?case by (simp add: entries_Nil store_all_Nil)
next
  case (Cons line rest)
  show ?case
  proof (cases "py_in ''---'' line")
    case True
    then have "srv_body pkg (True, request, response) line = Inr (True, request, response)"
      by (simp add: srv_body_entry)
    then have "for_lines (srv_body pkg) (True, request, response) (line # rest)
                 = for_lines (srv_body pkg) (True, request, response) rest"
      by simp
    with True show ?thesis by (simp add: Cons.IH)
  next
    case False
    note nosep = this
    show ?thesis
    proof (cases "field_entry pkg line")
      case None
      with nosep have "srv_body pkg (True, request, response) line = Inr (True, request, response)"
        by (simp add: srv_body_entry)
      then have "for_lines (srv_body pkg) (True, request, response) (line # rest)
                   = for_lines (srv_body pkg) (True, request, response) rest"
        by simp
      with None nosep show ?thesis by (simp add: entries_Cons Cons.IH)
    next
      case (Some e)
      obtain k v where e: "e = (k, v)" by (cases e)
      with Some nosep
      have "srv_body pkg (True, request, response) line = Inr (True, request, dict_set response k v)"
        by (simp add: srv_body_entry)
      then have "for_lines (srv_body pkg) (True, request, response) (line # rest)
                   = for_lines (srv_body pkg) (True, request, dict_set response k v) rest"
        by simp
      with Some e nosep show ?thesis by (simp add: entries_Cons Cons.IH store_all_Cons)
    qed
  qed
qed

lemma srv_loop_request:
  "for_lines (srv_body pkg) (False, request, response) ls
     = Inr (list_ex (py_in ''---'') ls,
            store_all request (entries pkg (takeWhile (\<lambda>l. \<not> py_in ''---'' l) ls)),
            store_all response
              (entries pkg (filter (\<lambda>l. \<not> py_in ''---'' l)
                              (dropWhile (\<lambda>l. \<not> py_in ''---'' l) ls))))"
proof (induction ls arbitrary: request)
  case Nil
  show ?case by (simp add: entries_Nil store_all_Nil)
next
  case (Cons line rest)
  show ?case
  proof (cases "py_in ''---'' line")
    case True
    then have "srv_body pkg (False, request, response) line = Inr (True, request, response)"
      by (simp add: srv_body_entry)
    then have "for_lines (srv_body pkg) (False, request, response) (line # rest)
                 = for_lines (srv_body pkg) (True, request, response) rest"
      by simp
    with True show ?thesis by (simp add: srv_loop_response entries_Nil store_all_Nil)
  next
    case False
    note nosep = this
    show ?thesis
    proof (cases "field_entry pkg line")
      case None
      with nosep have "srv_body pkg (False, request, response) line = Inr (False, request, response)"
        by (simp add: srv_body_entry)
      then have "for_lines (srv_body pkg) (False, request, response) (line # rest)
                   = for_lines (srv_body pkg) (False, request, response) rest"
        by simp
      with None nosep show ?thesis by (simp add: entries_Cons Cons.IH)
    next
      case (Some e)
      obtain k v where e: "e = (k, v)" by (cases e)
      with Some nosep
      have "srv_body pkg (False, request, response) line = Inr (False, dict_set request k v, response)"
        by (simp add: srv_body_entry)
      then have "for_lines (srv_body pkg) (False, request, response) (line # rest)
                   = for_lines (srv_body pkg) (False, dict_set request k v, response) rest"
        by simp
      with Some e nosep show ?thesis by (simp add: entries_Cons Cons.IH store_all_Cons)
    qed
  qed
qed

lemma section_from_Nil: "section_from border k [] = []"
  by (simp add: section_from_def)

lemma section_from_separator:
  "py_in ''---'' line \<Longrightarrow> section_from border k (line # rest) = section_from (border + 1) k rest"
proof (cases "border < k")
  case True
  assume "py_in ''---'' line"
  moreover from True obtain j where "k - border = Suc j" and "k - (border + 1) = j"
    by (cases "k - border") auto
  ultimately show ?thesis using True by (simp add: section_from_def)
next
  case False
  assume "py_in ''---'' line"
  with False show ?thesis by (simp add: section_from_def)
qed

lemma section_from_field:
  "\<not> py_in ''---'' line \<Longrightarrow>
     section_from border k (line # rest)
       = (if border = k then line # section_from border k rest else section_from border k rest)"
  by (auto simp: section_from_def)

lemma action_loop:
  "for_lines (action_body pkg) (border, goal, result, feedback) ls
     = Inr (border + length (filter (py_in ''---'') ls),
            store_all goal (entries pkg (section_from border 0 ls)),
            store_all result (entries pkg (section_from border 1 ls)),
            store_all feedback (entries pkg (section_from border 2 ls)))"
proof (induction ls arbitrary: border goal result feedback)
  case Nil
  show ?case by (simp add: entries_Nil store_all_Nil section_from_Nil)
next
  case (Cons line rest)
  show ?case
  proof (cases "py_in ''---'' line")
    case True
    then have "action_body pkg (border, goal, result, feedback) line
                 = Inr (border + 1, goal, result, feedback)"
      by (simp add: action_body_entry)
    then have "for_lines (action_body pkg) (border, goal, result, feedback) (line # rest)
                 = for_lines (action_body pkg) (border + 1, goal, result, feedback) rest"
      by simp
    also note Cons.IH
    finally show ?thesis
      using True by (simp add: section_from_separator)
  next
    case False
    note nosep = this
    show ?thesis
    proof (cases "field_entry pkg line")
      case None
      with nosep have "action_body pkg (border, goal, result, feedback) line
                         = Inr (border, goal, result, feedback)"
        by (simp add: action_body_entry)
      then have "for_lines (action_body pkg) (border, goal, result, feedback) (line # rest)
                   = for_lines (action_body pkg) (border, goal, result, feedback) rest"
        by simp
      also note Cons.IH
      finally show ?thesis
        using None nosep by (simp add: section_from_field entries_Cons)
    next
      case (Some e)
      obtain k v where e: "e = (k, v)" by (cases e)
      with Some nosep
      have "action_body pkg (border, goal, result, feedback) line
              = Inr (border,
                     if border = 0 then dict_set goal k v else goal,
                     if border = 1 then dict_set result k v else result,
                     if border = 2 then dict_set feedback k v else feedback)"
        by (simp add: action_body_entry)
      then have "for_lines (action_body pkg) (border, goal, result, feedback) (line # rest)
                   = for_lines (action_body pkg)
                       (border,
                        if border = 0 then dict_set goal k v else goal,
                        if border = 1 then dict_set result k v else result,
                        if border = 2 then dict_set feedback k v else feedback) rest"
        by simp
      also note Cons.IH
      finally show ?thesis
        using Some e nosep by (simp add: section_from_field entries_Cons store_all_Cons)
    qed
  qed
qed

lemma section_lines_append:
  "k < length (filter (py_in ''---'') pre) \<Longrightarrow> section_lines k (pre @ post) = section_lines k pre"
proof (induction pre arbitrary: k)
  case Nil
  then show ?case by simp
next
  case (Cons line rest)
  then show ?case by (cases k) (auto split: if_splits)
qed

subsection \<open>The builders as functions of the lines\<close>

lemma store_all_last_write_wins: "last_write_wins es (store_all [] es)"
  by (simp add: last_write_wins_def store_all_distinct store_all_map_of)

lemma process_msg_file_entries:
  "process_msg_file f pkg = Inr (stem f, store_all [] (entries pkg (file_lines f)))"
  by (simp add: process_msg_file_def msg_loop)

lemma process_srv_file_entries:
  "process_srv_file f pkg
     = Inr (stem f, store_all [] (entries pkg (request_lines (file_lines f))),
            store_all [] (entries pkg (response_lines (file_lines f))))"
  by (simp add: process_srv_file_def srv_loop_request request_lines_def response_lines_def)

lemma process_action_file_entries:
  "process_action_file f pkg
     = Inr (stem f, store_all [] (entries pkg (section_lines 0 (file_lines f))),
            store_all [] (entries pkg (section_lines 1 (file_lines f))),
            store_all [] (entries pkg (section_lines 2 (file_lines f))))"
  by (simp add: process_action_file_def action_loop section_from_def)

subsection \<open>Replacing a node name\<close>

lemma py_replace_prefix:
  assumes "old \<noteq> []"
  shows "py_replace old new (old @ rest) = new @ py_replace old new rest"
proof -
  from assms obtain c cs where c: "old @ rest = c # cs"
    by (cases old) auto
  have "startswith (old @ rest) old" by (simp add: startswith_def)
  then have s: "startswith (c # cs) old" by (simp only: c)
  have "drop (length old) (old @ rest) = rest" by simp
  then have d: "drop (length old) (c # cs) = rest" by (simp only: c)
  from assms s have "py_replace old new (c # cs) = new @ py_replace old new (drop (length old) (c # cs))"
    by (simp only: py_replace.simps if_False if_True)
  then show ?thesis by (simp only: c d)
qed

lemma py_replace_absent:
  assumes "old \<noteq> []" and "\<not> py_in old s"
  shows "py_replace old new s = s"
  using assms(2)
proof (induction s)
  case Nil
  with assms(1) show ?case by simp
next
  case (Cons c cs)
  then have "\<not> startswith (c # cs) old" and "\<not> py_in old cs" by simp_all
  with Cons.IH assms(1) show ?case by simp
qed

lemma fix_topic_names_loop_slash:
  assumes "startswith node_name ''/''"
  shows "fix_topic_names_loop node_name new_topics topics
           = new_topics @ map (\<lambda>topic. \<lparr>name = py_replace node_name ''~'' (name topic),
                                         types = types topic\<rparr>) topics"
proof (induction topics arbitrary: new_topics)
  case Nil
  show ?case by simp
next
  case (Cons topic topics)
  from assms show ?case by (simp add: Cons.IH)
qed

section \<open>Scalar fields of compound types\<close>

text \<open>
  C1. What the code does with a field line \<open>T NAME\<close> whose type \<open>T\<close> is compound and
  has no package separator and no array annotation: in package \<open>pkgX\<close> it returns the
  quoted type \<open>pkgX/msg/T\<close> followed by the array suffix \<open>[]\<close>, which the line never
  carried. The suffix is taken off and put back behind the closing quote for every type
  that is not primitive, with no test that there was one. So \<open>Point position\<close> in
  \<open>geometry_msgs\<close> comes out as an array of points.
\<close>

theorem scalar_compound_gets_array_suffix:
  assumes "token T" and "CHR ''/'' \<notin> set T" and "T \<notin> set primitive_types"
    and "token NAME" and "CHR ''['' \<notin> set pkgX"
  shows "get_type_format (T @ '' '' @ NAME) pkgX
           = Inr (Some NAME, Some ([quote] @ pkgX @ ''/msg/'' @ T @ [quote] @ ''[]''))"
proof -
  have sl: "split_line (T @ '' '' @ NAME) = Inr (Some T, Some NAME)"
    using split_line_two_tokens [OF assms(1,4)] assms(2)
    by (simp add: py_replace_single_absent)
  have unscoped: "\<not> py_in ''/'' T"
    using assms(2) by (simp add: py_in_single)
  have "CHR ''['' \<notin> set (quote # pkgX @ ''/msg/'' @ T @ [quote])"
    using assms(5) token_props(5) [OF assms(1)] by simp
  then have "py_replace ''[]'' [] ((quote # pkgX @ ''/msg/'' @ T @ [quote]) @ [])
               = (quote # pkgX @ ''/msg/'' @ T @ [quote]) @ py_replace ''[]'' [] []"
    by (rule py_replace_brackets_prefix)
  then have "py_replace ''[]'' [] ([quote] @ (pkgX @ ''/msg/'' @ T) @ [quote])
               = [quote] @ pkgX @ ''/msg/'' @ T @ [quote]"
    by simp
  then show ?thesis
    using assms(3) unscoped unfolding get_type_format_def sl Let_def by simp
qed

theorem scalar_compound_gets_array_suffix_witness:
  "get_type_format ''Point position'' ''geometry_msgs''
     = Inr (Some ''position'', Some ([quote] @ ''geometry_msgs/msg/Point'' @ [quote] @ ''[]''))"
proof -
  have "token ''Point''" "token ''position''"
    by (simp_all add: token_def whitespace_def)
  moreover have "''Point'' \<notin> set primitive_types"
    by (simp add: primitive_types_def)
  ultimately show ?thesis
    using scalar_compound_gets_array_suffix [of "''Point''" "''position''" "''geometry_msgs''"]
    by simp
qed

section \<open>Lines with an equals sign\<close>

text \<open>
  C9. A line in which the character \<open>=\<close> occurs anywhere, also inside a trailing comment,
  tokenizes to \<open>(None, None)\<close>: the test for a constant declaration reads the line before
  the comment is cut off. The resolver returns no type for it, and no builder stores a
  field: the message builder leaves its dict as it is, and the service and action
  builders change at most the section they are in (when \<open>---\<close> occurs in the line too).
\<close>

theorem equals_sign_line_contributes_nothing:
  assumes "CHR ''='' \<in> set line"
  shows "split_line line = Inr (None, None)
       \<and> get_type_format line pkg = Inr (None, None)
       \<and> msg_body pkg message line = Inr message
       \<and> srv_body pkg (resp, request, response) line
           = Inr (resp \<or> py_in ''---'' line, request, response)
       \<and> action_body pkg (border, goal, result, feedback) line
           = Inr (if py_in ''---'' line then border + 1 else border, goal, result, feedback)"
proof (intro conjI)
  show "split_line line = Inr (None, None)"
    using assms by (rule split_line_equals)
  show "get_type_format line pkg = Inr (None, None)"
    using assms by (rule get_type_format_equals)
  show "msg_body pkg message line = Inr message"
    using assms by (simp add: msg_body_def py_in_single)
  show "srv_body pkg (resp, request, response) line
          = Inr (resp \<or> py_in ''---'' line, request, response)"
    using assms by (simp add: srv_body_def get_type_format_equals)
  show "action_body pkg (border, goal, result, feedback) line
          = Inr (if py_in ''---'' line then border + 1 else border, goal, result, feedback)"
    using assms by (simp add: action_body_def get_type_format_equals)
qed

theorem equals_sign_line_contributes_nothing_witness:
  "split_line ''int32 x  # default = 5'' = Inr (None, None)
   \<and> get_type_format ''int32 x  # default = 5'' ''p'' = Inr (None, None)
   \<and> msg_body ''p'' [] ''int32 x  # default = 5'' = Inr []
   \<and> srv_body ''p'' (False, [], []) ''int32 x  # default = 5'' = Inr (False, [], [])
   \<and> action_body ''p'' (0, [], [], []) ''int32 x  # default = 5'' = Inr (0, [], [], [])"
proof -
  have "CHR ''='' \<in> set ''int32 x  # default = 5''" by simp
  moreover have "\<not> py_in ''---'' ''int32 x  # default = 5''" by (simp add: startswith_def)
  ultimately show ?thesis
    using equals_sign_line_contributes_nothing
            [of "''int32 x  # default = 5''" "''p''" "[]" False "[]" "[]" 0 "[]" "[]" "[]"]
    by simp
qed

section \<open>Brackets in both tokens\<close>

text \<open>
  C10. The bracket pattern is applied to the whole line and is greedy: whatever stands
  between the first \<open>[\<close> and the last \<open>]\<close> of the line, a name token with its own
  bracket included, collapses into one \<open>[]\<close>. A line that ends with the last \<open>]\<close> is left
  with a single token, the type with the suffix \<open>[]\<close>, and the name is \<open>None\<close>; so
  \<open>int8[2] x[3]\<close> gives \<open>(int8[], None)\<close>.
\<close>

theorem bracket_normalization_merges_tokens:
  assumes "token T"
    and "newline \<notin> set mid" and "CHR ''#'' \<notin> set mid" and "CHR ''='' \<notin> set mid"
  shows "re_sub_brackets (T @ ''['' @ mid @ '']'') = T @ ''[]''
       \<and> split_line (T @ ''['' @ mid @ '']'')
           = Inr (Some (py_replace ''/'' ''/msg/'' T @ ''[]''), None)"
proof
  have "re_sub_brackets (T @ CHR ''['' # mid @ CHR '']'' # []) = T @ ''[]'' @ []"
    using token_props(5) [OF assms(1)] assms(2) by (intro re_sub_brackets_greedy) simp_all
  then show "re_sub_brackets (T @ ''['' @ mid @ '']'') = T @ ''[]''" by simp
  show "split_line (T @ ''['' @ mid @ '']'')
           = Inr (Some (py_replace ''/'' ''/msg/'' T @ ''[]''), None)"
    using assms by (rule split_line_merge)
qed

theorem bracket_normalization_merges_tokens_witness:
  "re_sub_brackets ''int8[2] x[3]'' = ''int8[]''
   \<and> split_line ''int8[2] x[3]'' = Inr (Some ''int8[]'', None)"
proof -
  have "token ''int8''" by (simp add: token_def whitespace_def)
  moreover have "newline \<notin> set ''2] x[3''" "CHR ''#'' \<notin> set ''2] x[3''" "CHR ''='' \<notin> set ''2] x[3''"
    by (simp_all add: newline_def)
  ultimately show ?thesis
    using bracket_normalization_merges_tokens [of "''int8''" "''2] x[3''"]
    by (simp add: py_replace_single)
qed

section \<open>Primitive types\<close>

text \<open>
  C2, as amended. Every entry \<open>P\<close> of the list \<open>primitive_types\<close> is returned unchanged
  by the resolver, with no quote and no package prefix: these are \<open>bool\<close>, the signed and
  unsigned integers of 8, 16, 32 and 64 bits, \<open>float32\<close>, \<open>float64\<close>, \<open>string\<close> and \<open>byte\<close>,
  each of them also in its array form \<open>P[]\<close>, and \<open>time\<close>, \<open>duration\<close> and \<open>Header\<close> in
  their scalar form only.
\<close>

theorem primitive_types_unchanged:
  assumes "P \<in> set primitive_types" and "token NAME"
  shows "get_type_format (P @ '' '' @ NAME) pkg = Inr (Some NAME, Some P)"
proof -
  have "split_line (P @ '' '' @ NAME) = Inr (Some P, Some NAME)"
    using assms(1)
  proof (cases rule: primitive_cases)
    case 1
    then show ?thesis
      using split_line_two_tokens [of P NAME] assms(2)
      by (simp add: py_replace_single_absent)
  next
    case (2 b)
    then have "split_line (b @ ''['' @ [] @ ''] '' @ NAME) = Inr (Some (b @ ''[]''), Some NAME)"
      using split_line_array [of b NAME "[]"] assms(2)
      by (simp add: py_replace_single_absent)
    then show ?thesis
      unfolding \<open>P = b @ ''[]''\<close> by simp
  qed
  then show ?thesis
    using assms(1) by (simp add: get_type_format_def)
qed

theorem primitive_types_unchanged_witness:
  "get_type_format (''uint8[]'' @ '' '' @ ''data'') ''sensor_msgs'' = Inr (Some ''data'', Some ''uint8[]'')"
proof -
  have "''uint8[]'' \<in> set primitive_types" by (simp add: primitive_types_def)
  moreover have "token ''data''" by (simp add: token_def whitespace_def)
  ultimately show ?thesis
    by (rule primitive_types_unchanged)
qed

text \<open>
  C2 as stated fails: \<open>time\<close>, \<open>duration\<close> and \<open>Header\<close> are in the list, their array
  forms are not, and a field of type \<open>time[]\<close>, \<open>duration[]\<close> or \<open>Header[]\<close> is resolved as
  a compound type, quoted and prefixed with the package.
\<close>

theorem array_of_time_not_primitive:
  "''time'' \<in> set primitive_types \<and> ''time[]'' \<notin> set primitive_types
   \<and> ''duration'' \<in> set primitive_types \<and> ''duration[]'' \<notin> set primitive_types
   \<and> ''Header'' \<in> set primitive_types \<and> ''Header[]'' \<notin> set primitive_types
   \<and> get_type_format ''time[] stamps'' ''pkgX''
       = Inr (Some ''stamps'', Some ([quote] @ ''pkgX/msg/time'' @ [quote] @ ''[]''))
   \<and> get_type_format ''duration[] waits'' ''pkgX''
       = Inr (Some ''waits'', Some ([quote] @ ''pkgX/msg/duration'' @ [quote] @ ''[]''))
   \<and> get_type_format ''Header[] headers'' ''pkgX''
       = Inr (Some ''headers'', Some ([quote] @ ''pkgX/msg/Header'' @ [quote] @ ''[]''))"
  by code_simp

section \<open>Arrays of compound types\<close>

text \<open>
  C5. A field line \<open>T[...] NAME\<close> whose type \<open>T\<close> is compound and carries no package
  separator resolves, in package \<open>pkgX\<close>, to the quoted type followed by the suffix:
  the quote, \<open>pkgX/msg/T\<close>, the quote, \<open>[]\<close>. The suffix stands after the closing quote
  and never inside the quotes. Whatever the brackets of the line hold, a size or a bound
  or nothing, the result is the same.
\<close>

theorem compound_array_quote_then_suffix:
  assumes "token T" and "CHR ''/'' \<notin> set T" and "T @ ''[]'' \<notin> set primitive_types"
    and "token NAME"
    and "newline \<notin> set ann" and "CHR ''#'' \<notin> set ann" and "CHR ''='' \<notin> set ann"
    and "CHR ''['' \<notin> set pkgX"
  shows "get_type_format (T @ ''['' @ ann @ ''] '' @ NAME) pkgX
           = Inr (Some NAME, Some ([quote] @ pkgX @ ''/msg/'' @ T @ [quote] @ ''[]''))
       \<and> [quote] @ pkgX @ ''/msg/'' @ T @ [quote] @ ''[]''
           \<noteq> [quote] @ pkgX @ ''/msg/'' @ T @ ''[]'' @ [quote]"
proof
  have sl: "split_line (T @ ''['' @ ann @ ''] '' @ NAME) = Inr (Some (T @ ''[]''), Some NAME)"
    using split_line_array [OF assms(1,4,5,6,7)] assms(2)
    by (simp add: py_replace_single_absent)
  have unscoped: "\<not> py_in ''/'' (T @ ''[]'')"
    using assms(2) by (simp add: py_in_single)
  have "CHR ''['' \<notin> set (quote # pkgX @ ''/msg/'' @ T)"
    using assms(8) token_props(5) [OF assms(1)] by simp
  then have "py_replace ''[]'' [] ((quote # pkgX @ ''/msg/'' @ T) @ ''[]'' @ [quote])
               = (quote # pkgX @ ''/msg/'' @ T) @ py_replace ''[]'' [] (''[]'' @ [quote])"
    by (rule py_replace_brackets_prefix)
  moreover have "py_replace ''[]'' [] (''[]'' @ [quote]) = [quote]"
    by (simp add: startswith_def quote_def)
  ultimately have "py_replace ''[]'' [] ([quote] @ (pkgX @ ''/msg/'' @ T @ ''[]'') @ [quote])
               = [quote] @ pkgX @ ''/msg/'' @ T @ [quote]"
    by simp
  then show "get_type_format (T @ ''['' @ ann @ ''] '' @ NAME) pkgX
           = Inr (Some NAME, Some ([quote] @ pkgX @ ''/msg/'' @ T @ [quote] @ ''[]''))"
    using assms(3) unscoped unfolding get_type_format_def sl Let_def by simp
  show "[quote] @ pkgX @ ''/msg/'' @ T @ [quote] @ ''[]''
           \<noteq> [quote] @ pkgX @ ''/msg/'' @ T @ ''[]'' @ [quote]"
    by (simp add: quote_def)
qed

theorem compound_array_quote_then_suffix_witness:
  "get_type_format ''Point[] positions'' ''geometry_msgs''
     = Inr (Some ''positions'', Some ([quote] @ ''geometry_msgs/msg/Point'' @ [quote] @ ''[]''))
   \<and> [quote] @ ''geometry_msgs/msg/Point'' @ [quote] @ ''[]''
       \<noteq> [quote] @ ''geometry_msgs/msg/Point[]'' @ [quote]"
proof -
  have "token ''Point''" "token ''positions''"
    by (simp_all add: token_def whitespace_def)
  moreover have "''Point'' @ ''[]'' \<notin> set primitive_types"
    by (simp add: primitive_types_def)
  ultimately show ?thesis
    using compound_array_quote_then_suffix
            [of "''Point''" "''positions''" "[]" "''geometry_msgs''"]
    by (simp add: newline_def)
qed

section \<open>The sections of a service file\<close>

text \<open>
  C4, as amended. In the service builder exactly the lines in which three consecutive
  dashes occur anywhere, alone or next to other text, switch to the response and store no
  field; every other line is read as a field line of the section in which it stands. So
  the request holds the entries of the lines before the first such line, the response
  those of the later lines in which no \<open>---\<close> occurs, and the flag \<open>resp\<close> ends up set
  exactly when some line has \<open>---\<close> in it. The lines \<open>int32 a\<close>, \<open>---\<close>, \<open>string b\<close> give the
  request \<open>{a: int32}\<close> and the response \<open>{b: string}\<close> under the stem of the file.
\<close>

theorem service_sections:
  "for_lines (srv_body pkg) (False, [], []) ls
     = Inr (list_ex (py_in ''---'') ls,
            store_all [] (entries pkg (request_lines ls)),
            store_all [] (entries pkg (response_lines ls)))
   \<and> process_srv_file srv_file pkg
       = Inr (stem srv_file,
              store_all [] (entries pkg (request_lines (file_lines srv_file))),
              store_all [] (entries pkg (response_lines (file_lines srv_file))))"
  by (simp add: srv_loop_request process_srv_file_entries request_lines_def response_lines_def)

theorem service_sections_witness:
  "process_srv_file
     \<lparr>stem = ''AddTwoInts'',
      file_lines = [''int32 a'' @ [newline], ''---'' @ [newline], ''string b'' @ [newline]]\<rparr> ''p''
     = Inr (''AddTwoInts'', [(Some ''a'', ''int32'')], [(Some ''b'', ''string'')])"
proof -
  let ?ls = "[''int32 a'' @ [newline], ''---'' @ [newline], ''string b'' @ [newline]]"
  have 1: "store_all [] (entries ''p'' (request_lines ?ls)) = [(Some ''a'', ''int32'')]"
    by code_simp
  have 2: "store_all [] (entries ''p'' (response_lines ?ls)) = [(Some ''b'', ''string'')]"
    by code_simp
  from service_sections [of "''p''" ?ls "\<lparr>stem = ''AddTwoInts'', file_lines = ?ls\<rparr>"]
  show ?thesis
    unfolding spec_file.select_convs 1 2 by (rule conjunct2)
qed

text \<open>
  C4 as stated fails: the line \<open>int32 a # ---\<close> does not consist of a separator marker,
  it is a field line with a comment, and resolves to the field \<open>a\<close> of type \<open>int32\<close>; yet
  the service builder takes it for the separator, stores no field and goes on with the
  response.
\<close>

theorem separator_inside_a_field_line:
  "\<not> separator_marker_line ''int32 a # ---''
   \<and> get_type_format ''int32 a # ---'' ''p'' = Inr (Some ''a'', Some ''int32'')
   \<and> srv_body ''p'' (False, [], []) ''int32 a # ---'' = Inr (True, [], [])
   \<and> process_srv_file \<lparr>stem = ''S'', file_lines = [''int32 a # ---'', ''string b'']\<rparr> ''p''
       = Inr (''S'', [], [(Some ''b'', ''string'')])"
  by code_simp

section \<open>The sections of an action file\<close>

text \<open>
  C6. The counter of the action builder starts at 0 and is incremented at every line in
  which \<open>---\<close> occurs, so it ends as the number of these lines. The goal, the result and
  the feedback hold the entries of the lines of sections 0, 1 and 2; no dict is chosen
  once the counter is above 2, and what is read after a third separator changes
  none of the three dicts.
\<close>

theorem action_sections:
  "for_lines (action_body pkg) (0, [], [], []) ls
     = Inr (length (filter (py_in ''---'') ls),
            store_all [] (entries pkg (section_lines 0 ls)),
            store_all [] (entries pkg (section_lines 1 ls)),
            store_all [] (entries pkg (section_lines 2 ls)))
   \<and> process_action_file action_file pkg
       = Inr (stem action_file,
              store_all [] (entries pkg (section_lines 0 (file_lines action_file))),
              store_all [] (entries pkg (section_lines 1 (file_lines action_file))),
              store_all [] (entries pkg (section_lines 2 (file_lines action_file))))
   \<and> (3 \<le> length (filter (py_in ''---'') pre) \<longrightarrow>
        process_action_file \<lparr>stem = n, file_lines = pre @ post\<rparr> pkg
          = process_action_file \<lparr>stem = n, file_lines = pre\<rparr> pkg)"
proof (intro conjI impI)
  show "for_lines (action_body pkg) (0, [], [], []) ls
     = Inr (length (filter (py_in ''---'') ls),
            store_all [] (entries pkg (section_lines 0 ls)),
            store_all [] (entries pkg (section_lines 1 ls)),
            store_all [] (entries pkg (section_lines 2 ls)))"
    by (simp add: action_loop section_from_def)
  show "process_action_file action_file pkg
       = Inr (stem action_file,
              store_all [] (entries pkg (section_lines 0 (file_lines action_file))),
              store_all [] (entries pkg (section_lines 1 (file_lines action_file))),
              store_all [] (entries pkg (section_lines 2 (file_lines action_file))))"
    by (rule process_action_file_entries)
  assume "3 \<le> length (filter (py_in ''---'') pre)"
  then have "0 < length (filter (py_in ''---'') pre)"
    and "1 < length (filter (py_in ''---'') pre)"
    and "2 < length (filter (py_in ''---'') pre)"
    by arith+
  then have "section_lines 0 (pre @ post) = section_lines 0 pre"
    and "section_lines 1 (pre @ post) = section_lines 1 pre"
    and "section_lines 2 (pre @ post) = section_lines 2 pre"
    using section_lines_append [of 0 pre post] section_lines_append [of 1 pre post]
      section_lines_append [of 2 pre post]
    by blast+
  then show "process_action_file \<lparr>stem = n, file_lines = pre @ post\<rparr> pkg
          = process_action_file \<lparr>stem = n, file_lines = pre\<rparr> pkg"
    by (simp add: process_action_file_entries)
qed

theorem action_sections_witness:
  "process_action_file
     \<lparr>stem = ''Fibonacci'',
      file_lines = [''int32 g'', ''---'', ''int32 r'', ''---'', ''int32 f'', ''---''] @ [''int32 h'']\<rparr> ''p''
     = Inr (''Fibonacci'', [(Some ''g'', ''int32'')], [(Some ''r'', ''int32'')], [(Some ''f'', ''int32'')])"
proof -
  let ?pre = "[''int32 g'', ''---'', ''int32 r'', ''---'', ''int32 f'', ''---'']"
  have 1: "3 \<le> length (filter (py_in ''---'') ?pre)"
    by code_simp
  have 2: "process_action_file \<lparr>stem = ''Fibonacci'', file_lines = ?pre\<rparr> ''p''
             = Inr (''Fibonacci'', [(Some ''g'', ''int32'')], [(Some ''r'', ''int32'')],
                    [(Some ''f'', ''int32'')])"
    by code_simp
  from action_sections [of "''p''" "[]" "\<lparr>stem = [], file_lines = []\<rparr>" ?pre "''Fibonacci''" "[''int32 h'']"]
  have "3 \<le> length (filter (py_in ''---'') ?pre) \<longrightarrow>
        process_action_file \<lparr>stem = ''Fibonacci'', file_lines = ?pre @ [''int32 h'']\<rparr> ''p''
          = process_action_file \<lparr>stem = ''Fibonacci'', file_lines = ?pre\<rparr> ''p''"
    by (elim conjE)
  with 1 2 show ?thesis by (simp only:)
qed

section \<open>Lines with a type and no name\<close>

text \<open>
  C3, as amended. A significant line (no comment, no constant, not blank) with other than
  two tokens has exactly one; the tokenizer does not raise on it and returns this token,
  with \<open>/\<close> rewritten, as the type and \<open>None\<close> as the name. The resolver returns a type for
  it, and every builder stores this type, under the key \<open>None\<close>, in the dict of the section
  the line stands in: the builders skip a line only when its type is \<open>None\<close>.
\<close>

theorem incomplete_line_stored_under_None:
  assumes "significant line" and "length (tokens line) \<noteq> 2"
  shows "split_line line = Inr (Some (py_replace ''/'' ''/msg/'' (hd (tokens line))), None)
       \<and> (\<exists>t. get_type_format line pkg = Inr (None, Some t)
            \<and> msg_body pkg message line = Inr (dict_set message None t)
            \<and> (\<not> py_in ''---'' line \<longrightarrow>
                 srv_body pkg (resp, request, response) line
                   = Inr (resp, if resp then request else dict_set request None t,
                          if resp then dict_set response None t else response)
                 \<and> action_body pkg (border, goal, result, feedback) line
                   = Inr (border,
                          if border = 0 then dict_set goal None t else goal,
                          if border = 1 then dict_set result None t else result,
                          if border = 2 then dict_set feedback None t else feedback)))"
proof -
  from significant_tokens [OF assms(1)] tokens_length [of line] assms(2)
  obtain w where w: "tokens line = [w]"
    by (cases "tokens line" rule: remdups_adj.cases) auto
  then have "list_all (\<lambda>c. \<not> whitespace c) w"
    unfolding tokens_def by (rule split_maxsplit1_first_word)
  then have "strip (py_replace ''/'' ''/msg/'' w) = py_replace ''/'' ''/msg/'' w"
    by (intro strip_nonspace py_replace_single_nonspace) (simp_all add: whitespace_def)
  with w have sl: "split_line line = Inr (Some (py_replace ''/'' ''/msg/'' w), None)"
    by (simp add: split_line_significant [OF assms(1)])
  then obtain t where g: "get_type_format line pkg = Inr (None, Some t)"
    by (cases "py_replace ''/'' ''/msg/'' w \<in> set primitive_types")
       (simp_all add: get_type_format_def Let_def)
  then have fe: "field_entry pkg line = Some (None, t)"
    by (rule field_entry_Some)
  from sl w have "split_line line = Inr (Some (py_replace ''/'' ''/msg/'' (hd (tokens line))), None)"
    by simp
  moreover have "msg_body pkg message line = Inr (dict_set message None t)"
    by (simp add: msg_body_entry fe)
  moreover have "\<not> py_in ''---'' line \<longrightarrow>
                 srv_body pkg (resp, request, response) line
                   = Inr (resp, if resp then request else dict_set request None t,
                          if resp then dict_set response None t else response)
                 \<and> action_body pkg (border, goal, result, feedback) line
                   = Inr (border,
                          if border = 0 then dict_set goal None t else goal,
                          if border = 1 then dict_set result None t else result,
                          if border = 2 then dict_set feedback None t else feedback)"
    by (simp add: srv_body_entry action_body_entry fe)
  ultimately show ?thesis using g by blast
qed

theorem incomplete_line_stored_under_None_witness:
  "split_line (''int32'' @ [newline]) = Inr (Some ''int32'', None)
   \<and> msg_body ''p'' [] (''int32'' @ [newline]) = Inr [(None, ''int32'')]"
proof -
  let ?l = "''int32'' @ [newline]"
  have s: "significant ?l" by code_simp
  have t: "tokens ?l = [''int32'']" by code_simp
  then have n: "length (tokens ?l) \<noteq> 2" by simp
  have g: "get_type_format ?l ''p'' = Inr (None, Some ''int32'')" by code_simp
  from incomplete_line_stored_under_None [OF s n, of "''p''" "[]"]
  obtain t' where 1: "split_line ?l = Inr (Some (py_replace ''/'' ''/msg/'' (hd (tokens ?l))), None)"
    and 2: "get_type_format ?l ''p'' = Inr (None, Some t')"
    and 3: "msg_body ''p'' [] ?l = Inr (dict_set [] None t')"
    by blast
  from 2 g have "t' = ''int32''" by (simp only: sum.inject prod.inject option.inject)
  with 1 3 show ?thesis
    unfolding t by (simp add: py_replace_single)
qed

text \<open>
  C3 as stated fails: the line \<open>int32\<close> is significant and has a type token and no name
  token, and each of the three builders stores a field for it, with the key \<open>None\<close>.
\<close>

theorem incomplete_line_is_stored:
  "significant ''int32'' \<and> tokens ''int32'' = [''int32'']
   \<and> split_line ''int32'' = Inr (Some ''int32'', None)
   \<and> process_msg_file \<lparr>stem = ''M'', file_lines = [''int32'']\<rparr> ''p''
       = Inr (''M'', [(None, ''int32'')])
   \<and> process_srv_file \<lparr>stem = ''S'', file_lines = [''int32'', ''---'', ''Point'']\<rparr> ''p''
       = Inr (''S'', [(None, ''int32'')], [(None, [quote] @ ''p/msg/Point'' @ [quote] @ ''[]'')])
   \<and> process_action_file \<lparr>stem = ''A'', file_lines = [''int32'']\<rparr> ''p''
       = Inr (''A'', [(None, ''int32'')], [], [])"
  by code_simp

section \<open>Two fields of one name\<close>

text \<open>
  C7. In every dict that a builder returns (the message, the request and the response of
  a service, the goal, the result and the feedback of an action) the last write wins:
  the dict has one entry for each name among the field lines of its section, and the
  type of a name is the one resolved from the last of these lines with this name. After
  \<open>int32 x\<close> and a later \<open>string x\<close> in one section, \<open>x\<close> has the type \<open>string\<close> only.
\<close>

theorem later_field_overwrites:
  "(\<exists>message. process_msg_file f pkg = Inr (stem f, message)
       \<and> last_write_wins (entries pkg (file_lines f)) message)
   \<and> (\<exists>request response. process_srv_file f pkg = Inr (stem f, request, response)
       \<and> last_write_wins (entries pkg (request_lines (file_lines f))) request
       \<and> last_write_wins (entries pkg (response_lines (file_lines f))) response)
   \<and> (\<exists>goal result feedback. process_action_file f pkg = Inr (stem f, goal, result, feedback)
       \<and> last_write_wins (entries pkg (section_lines 0 (file_lines f))) goal
       \<and> last_write_wins (entries pkg (section_lines 1 (file_lines f))) result
       \<and> last_write_wins (entries pkg (section_lines 2 (file_lines f))) feedback)"
  by (simp add: process_msg_file_entries process_srv_file_entries process_action_file_entries
        store_all_last_write_wins)

theorem later_field_overwrites_witness:
  "\<exists>message. process_msg_file \<lparr>stem = ''M'', file_lines = [''int32 x'', ''bool y'', ''string x'']\<rparr> ''p''
                = Inr (''M'', message)
     \<and> distinct (map fst message)
     \<and> map_of message (Some ''x'') = Some ''string''"
proof -
  let ?f = "\<lparr>stem = ''M'', file_lines = [''int32 x'', ''bool y'', ''string x'']\<rparr>"
  have e: "entries ''p'' [''int32 x'', ''bool y'', ''string x'']
             = [(Some ''x'', ''int32''), (Some ''y'', ''bool''), (Some ''x'', ''string'')]"
    by code_simp
  from later_field_overwrites [of ?f "''p''"]
  obtain message where m: "process_msg_file ?f ''p'' = Inr (stem ?f, message)"
    and l: "last_write_wins (entries ''p'' (file_lines ?f)) message"
    by blast
  from l have "distinct (map fst message)"
    and "map_of message (Some ''x'') = Some ''string''"
    by (simp_all add: last_write_wins_def e)
  with m show ?thesis by simp
qed

section \<open>Private topic names\<close>

text \<open>
  C8, as amended. For a node name that starts with \<open>/\<close>, the topic-name fixer returns one
  record for each record it is given, in the same order and with the same list of types;
  the name of a record is the given name with every occurrence of the node name, found
  from the left and not overlapping, replaced by \<open>~\<close>. So a name that starts with the node
  name starts with \<open>~\<close> afterwards, the rest of it being rewritten in the same way, and a
  name in which the node name does not occur is unchanged.
\<close>

theorem fix_topic_names_replaces_every_occurrence:
  assumes "startswith node_name ''/''"
  shows "fix_topic_names node_name topics
           = map (\<lambda>topic. \<lparr>name = py_replace node_name ''~'' (name topic), types = types topic\<rparr>)
               topics
       \<and> map types (fix_topic_names node_name topics) = map types topics
       \<and> py_replace node_name ''~'' (node_name @ rest) = ''~'' @ py_replace node_name ''~'' rest
       \<and> (\<not> py_in node_name s \<longrightarrow> py_replace node_name ''~'' s = s)"
proof -
  from assms have ne: "node_name \<noteq> []" by (auto simp: startswith_def)
  have 1: "fix_topic_names node_name topics
           = map (\<lambda>topic. \<lparr>name = py_replace node_name ''~'' (name topic), types = types topic\<rparr>)
               topics"
    using fix_topic_names_loop_slash [OF assms, of "[]"] by (simp add: fix_topic_names_def)
  have 2: "map types (fix_topic_names node_name topics) = map types topics"
    unfolding 1 by (simp add: comp_def)
  from ne have 3: "py_replace node_name ''~'' (node_name @ rest) = ''~'' @ py_replace node_name ''~'' rest"
    by (rule py_replace_prefix)
  from ne have 4: "\<not> py_in node_name s \<longrightarrow> py_replace node_name ''~'' s = s"
    by (simp add: py_replace_absent)
  from 1 2 3 4 show ?thesis by (intro conjI)
qed

theorem fix_topic_names_replaces_every_occurrence_witness:
  "fix_topic_names ''/talker''
     [\<lparr>name = ''/talker/chatter'', types = [''std_msgs/msg/String'']\<rparr>,
      \<lparr>name = ''/rosout'', types = [''rcl_interfaces/msg/Log'']\<rparr>]
   = [\<lparr>name = ''~/chatter'', types = [''std_msgs/msg/String'']\<rparr>,
      \<lparr>name = ''/rosout'', types = [''rcl_interfaces/msg/Log'']\<rparr>]"
proof -
  have s: "startswith ''/talker'' ''/''" by (simp add: startswith_def)
  have 1: "py_replace ''/talker'' ''~'' ''/talker/chatter'' = ''~/chatter''" by code_simp
  have 2: "py_replace ''/talker'' ''~'' ''/rosout'' = ''/rosout''" by code_simp
  from fix_topic_names_replaces_every_occurrence [OF s]
  have "fix_topic_names ''/talker''
     [\<lparr>name = ''/talker/chatter'', types = [''std_msgs/msg/String'']\<rparr>,
      \<lparr>name = ''/rosout'', types = [''rcl_interfaces/msg/Log'']\<rparr>]
     = map (\<lambda>topic. \<lparr>name = py_replace ''/talker'' ''~'' (name topic), types = types topic\<rparr>)
     [\<lparr>name = ''/talker/chatter'', types = [''std_msgs/msg/String'']\<rparr>,
      \<lparr>name = ''/rosout'', types = [''rcl_interfaces/msg/Log'']\<rparr>]"
    by (rule conjunct1)
  then show ?thesis
    by (simp only: list.map TopicInfo.select_convs 1 2)
qed

text \<open>
  C8 as stated fails. For the node \<open>/a\<close> the topic name \<open>/b/a\<close> does not start with the node
  name and is changed all the same, and in \<open>/a/b/a\<close> the occurrence at the end is
  rewritten with the prefix. For the node \<open>talker\<close>, whose name has no \<open>/\<close> in front, the
  topic name \<open>talker/chatter\<close> starts with the node name and is left as it is.
\<close>

theorem fix_topic_names_not_a_prefix_rewrite:
  "\<not> startswith ''/b/a'' ''/a''
   \<and> fix_topic_names ''/a'' [\<lparr>name = ''/b/a'', types = [''t'']\<rparr>]
       = [\<lparr>name = ''/b~'', types = [''t'']\<rparr>]
   \<and> startswith ''/a/b/a'' ''/a''
   \<and> fix_topic_names ''/a'' [\<lparr>name = ''/a/b/a'', types = [''t'']\<rparr>]
       = [\<lparr>name = ''~/b~'', types = [''t'']\<rparr>]
   \<and> startswith ''talker/chatter'' ''talker''
   \<and> fix_topic_names ''talker'' [\<lparr>name = ''talker/chatter'', types = [''t'']\<rparr>]
       = [\<lparr>name = ''talker/chatter'', types = [''t'']\<rparr>]"
  by code_simp

end
